theory Spec2Isabelle
  imports Main "HOL-Library.Word" "HOL-Library.Sublist"
begin

section \<open>Schemas and their successor chain\<close>

text \<open>
  The Go interface \<^verbatim>\<open>Schema\<close> offers \<^verbatim>\<open>Validate\<close>, \<^verbatim>\<open>Successor\<close> and \<^verbatim>\<open>Version\<close>.
  A schema is modelled by what these three methods return: its major and minor
  version, its validation function (\<open>None\<close> is Go's nil error, \<open>Some msg\<close> a
  diagnostic) and its successor (\<open>None\<close> is the nil interface). The type of the
  value handed to \<^verbatim>\<open>Validate\<close> is a parameter. The datatype is finite, so every
  successor chain ends, as the singly linked list of a bound lineage does.
\<close>

datatype 'v Schema =
  MkSchema (major: int) (minor: int) (Validate: "'v \<Rightarrow> string option")
    (Successor: "'v Schema option")

definition Version :: "'v Schema \<Rightarrow> int \<times> int" where
  "Version s = (major s, minor s)"

text \<open>What a Go panic carries, as far as the functions below can raise one.\<close>

datatype ssopt_error = LatestInMajorNonZero int | NotOneOption

datatype panic =
    Unreachable ssopt_error
  | IndexOutOfRange int nat
  | InterfaceConversion

section \<open>Search options\<close>

record ssopt =
  latest :: bool
  latestInMajor :: int
  hasLatestInMajor :: bool
  latestInCurrentMajor :: bool
  exact :: "int \<times> int"

text \<open>\<^verbatim>\<open>&ssopt{}\<close>: every field has Go's zero value.\<close>

definition ssopt_zero :: ssopt where
  "ssopt_zero = \<lparr>latest = False, latestInMajor = 0, hasLatestInMajor = False,
     latestInCurrentMajor = False, exact = (0, 0)\<rparr>"

text \<open>
  A \<^verbatim>\<open>SearchOption\<close> is a function that mutates the \<^verbatim>\<open>ssopt\<close> it is given; here
  it returns the updated record.
\<close>

type_synonym SearchOption = "ssopt \<Rightarrow> ssopt"

definition Latest :: SearchOption where
  "Latest = (\<lambda>p. p\<lparr>latest := True\<rparr>)"

definition LatestInMajor :: "int \<Rightarrow> SearchOption" where
  "LatestInMajor maj = (\<lambda>p. p\<lparr>latestInMajor := maj\<rparr>)"

definition LatestInCurrentMajor :: SearchOption where
  "LatestInCurrentMajor = (\<lambda>p. p\<lparr>latestInCurrentMajor := True\<rparr>)"

definition Exact :: "int \<Rightarrow> int \<Rightarrow> SearchOption" where
  "Exact maj mn = (\<lambda>p. p\<lparr>exact := (maj, mn)\<rparr>)"

text \<open>\<^verbatim>\<open>bits.OnesCount16\<close>: the number of one bits of a 16-bit word.\<close>

definition OnesCount16 :: "16 word \<Rightarrow> nat" where
  "OnesCount16 w = length (filter (bit w) [0..<16])"

text \<open>
  The last part of \<^verbatim>\<open>validate\<close>, shared by the two paths that reach it.
\<close>

definition validate_count :: "ssopt \<Rightarrow> 16 word \<Rightarrow> ssopt_error option" where
  "validate_count p which =
     (let which4 = (if latestInCurrentMajor p then which + push_bit 4 1 else which)
      in if OnesCount16 which4 \<noteq> 1 then Some NotOneOption else None)"

definition validate :: "ssopt \<Rightarrow> ssopt_error option" where
  "validate p =
     (let which0 = (0 :: 16 word);
          which1 = (if latest p then which0 + push_bit 1 1 else which0);
          which2 = (if exact p \<noteq> (0, 0) then which1 + push_bit 2 1 else which1)
      in if hasLatestInMajor p then
           validate_count p
             (if latestInMajor p \<noteq> - 1 then which2 + push_bit 3 1 else which2)
         else if latestInMajor p \<noteq> 0 then Some (LatestInMajorNonZero (latestInMajor p))
         else validate_count p which2)"

section \<open>Find\<close>

text \<open>The loop of the \<^verbatim>\<open>latest\<close> case: follow successors to the end.\<close>

fun walk_latest :: "'v Schema \<Rightarrow> 'v Schema" where
  "walk_latest (MkSchema a b f None) = MkSchema a b f None"
| "walk_latest (MkSchema a b f (Some n)) = walk_latest n"

text \<open>
  The loop of the \<^verbatim>\<open>hasLatestInMajor\<close> case, entered with \<open>imaj \<le> tgt\<close>, where
  \<open>imaj\<close> is the major version of the current schema. One round moves to the
  successor; at the end of the chain the schema left behind is returned when its
  major version is the target.
\<close>

fun latest_in_major_loop :: "int \<Rightarrow> 'v Schema \<Rightarrow> 'v Schema option" where
  "latest_in_major_loop tgt (MkSchema a b f None) =
     (if a = tgt then Some (MkSchema a b f None) else None)"
| "latest_in_major_loop tgt (MkSchema a b f (Some n)) =
     (if major n \<le> tgt then latest_in_major_loop tgt n
      else Some (MkSchema a b f (Some n)))"

definition find_latest_in_major :: "int \<Rightarrow> 'v Schema \<Rightarrow> 'v Schema option" where
  "find_latest_in_major tgt s =
     (if major s > tgt then None else latest_in_major_loop tgt s)"

text \<open>The loop of the default case (exact version).\<close>

fun exact_loop :: "int \<times> int \<Rightarrow> 'v Schema option \<Rightarrow> 'v Schema option" where
  "exact_loop e None = None"
| "exact_loop e (Some (MkSchema a b f nx)) =
     (if e = (a, b) then Some (MkSchema a b f nx) else exact_loop e nx)"

definition Find :: "'v Schema option \<Rightarrow> SearchOption \<Rightarrow> panic + 'v Schema option" where
  "Find s opt =
     (case s of
        None \<Rightarrow> Inr None
      | Some s0 \<Rightarrow>
          (let p = opt ssopt_zero in
           case validate p of
             Some err \<Rightarrow> Inl (Unreachable err)
           | None \<Rightarrow>
               if latest p then Inr (Some (walk_latest s0))
               else if latestInCurrentMajor p then
                 Inr (find_latest_in_major (major s0) s0)
               else if hasLatestInMajor p then
                 Inr (find_latest_in_major (latestInMajor p) s0)
               else Inr (exact_loop (exact p) (Some s0))))"

section \<open>AsArray and SearchAndValidate\<close>

text \<open>The first loop of \<^verbatim>\<open>AsArray\<close>: the chain as a flat list.\<close>

fun flatten :: "'v Schema option \<Rightarrow> 'v Schema list" where
  "flatten None = []"
| "flatten (Some (MkSchema a b f nx)) = MkSchema a b f nx # flatten nx"

text \<open>
  One round of the second loop. \<^verbatim>\<open>ret[maj]\<close> panics when \<open>maj\<close> is negative or
  not below the length of \<open>ret\<close>.
\<close>

definition place :: "'v Schema list list \<Rightarrow> 'v Schema \<Rightarrow> panic + 'v Schema list list" where
  "place ret sch =
     (let maj = major sch;
          ret1 = (if int (length ret) = maj then ret @ [[]] else ret)
      in if 0 \<le> maj \<and> maj < int (length ret1)
         then Inr (ret1[nat maj := ret1 ! nat maj @ [sch]])
         else Inl (IndexOutOfRange maj (length ret1)))"

fun collate :: "'v Schema list list \<Rightarrow> 'v Schema list \<Rightarrow> panic + 'v Schema list list" where
  "collate ret [] = Inr ret"
| "collate ret (sch # rest) =
     (case place ret sch of Inl e \<Rightarrow> Inl e | Inr ret1 \<Rightarrow> collate ret1 rest)"

definition AsArray :: "'v Schema option \<Rightarrow> panic + 'v Schema list list" where
  "AsArray sch = collate [] (flatten sch)"

text \<open>
  The inner loop of \<^verbatim>\<open>SearchAndValidate\<close> over one row, from index \<open>i - 1\<close> down
  to 0, with the variable \<^verbatim>\<open>err\<close> threaded through. \<open>Inl\<close> is the early return
  of a schema.
\<close>

fun inner_loop :: "'v Schema list \<Rightarrow> 'v \<Rightarrow> nat \<Rightarrow> string option \<Rightarrow> 'v Schema + string option" where
  "inner_loop row v 0 err = Inr err"
| "inner_loop row v (Suc i) err =
     (case Validate (row ! i) v of
        None \<Rightarrow> Inl (row ! i)
      | Some e \<Rightarrow> inner_loop row v i (Some e))"

fun outer_loop :: "'v Schema list list \<Rightarrow> 'v \<Rightarrow> nat \<Rightarrow> string option \<Rightarrow> 'v Schema option \<times> string option" where
  "outer_loop arr v 0 err = (None, err)"
| "outer_loop arr v (Suc k) err =
     (case inner_loop (arr ! k) v (length (arr ! k)) err of
        Inl s \<Rightarrow> (Some s, None)
      | Inr err1 \<Rightarrow> outer_loop arr v k err1)"

definition SearchAndValidate ::
  "'v Schema option \<Rightarrow> 'v \<Rightarrow> panic + ('v Schema option \<times> string option)" where
  "SearchAndValidate s v =
     (case AsArray s of
        Inl e \<Rightarrow> Inl e
      | Inr arr \<Rightarrow> Inr (outer_loop arr v (length arr) None))"

section \<open>Version order and lineage chains\<close>

text \<open>Versions are compared by major version first, then by minor version.\<close>

definition ver_less :: "int \<times> int \<Rightarrow> int \<times> int \<Rightarrow> bool" where
  "ver_less a b = (fst a < fst b \<or> (fst a = fst b \<and> snd a < snd b))"

text \<open>
  The chain of a lineage, as \<^verbatim>\<open>Lineage.First\<close> hands it out: it starts in major
  version 0, and each successor either stays in the major version with a greater
  minor version or opens the next major version.
\<close>

fun ascending :: "'v Schema list \<Rightarrow> bool" where
  "ascending (a # b # rest) =
     (((major b = major a \<and> minor a < minor b) \<or> major b = major a + 1) \<and>
      ascending (b # rest))"
| "ascending [a] = True"
| "ascending [] = True"

definition lineage_chain :: "'v Schema \<Rightarrow> bool" where
  "lineage_chain s = (major s = 0 \<and> ascending (flatten (Some s)))"

text \<open>
  The major versions for which the indexing of \<^verbatim>\<open>AsArray\<close> stays in range: none
  is negative, and each is 0 or one more than a major version seen before it.
\<close>

fun contiguous_after :: "int list \<Rightarrow> int list \<Rightarrow> bool" where
  "contiguous_after seen [] = True"
| "contiguous_after seen (m # ms) =
     (0 \<le> m \<and> (m = 0 \<or> m - 1 \<in> set seen) \<and> contiguous_after (m # seen) ms)"

text \<open>
  The order in which the two loops of \<^verbatim>\<open>SearchAndValidate\<close> reach the schemas of
  the array: last row first, each row from its last element to its first.
\<close>

definition visit_order :: "'v Schema list list \<Rightarrow> 'v Schema list" where
  "visit_order arr = concat (rev (map rev arr))"

text \<open>
  Validation along a list of schemas, in the order of the list: the first schema
  that accepts is returned; the error variable keeps the last diagnostic.
\<close>

fun first_valid :: "'v Schema list \<Rightarrow> 'v \<Rightarrow> string option \<Rightarrow> 'v Schema option \<times> string option" where
  "first_valid [] v err = (None, err)"
| "first_valid (x # xs) v err =
     (case Validate x v of None \<Rightarrow> (Some x, None) | Some e \<Rightarrow> first_valid xs v (Some e))"

text \<open>
  The aggregated error of the specification, as a property of the error returned:
  there is an error, and its message holds the diagnostic of every schema of the
  list that rejects the value.
\<close>

definition lists_each_diagnostic :: "string option \<Rightarrow> 'v Schema list \<Rightarrow> 'v \<Rightarrow> bool" where
  "lists_each_diagnostic err schemas v =
     (case err of
        None \<Rightarrow> False
      | Some msg \<Rightarrow>
          list_all (\<lambda>x. case Validate x v of None \<Rightarrow> True | Some d \<Rightarrow> sublist d msg) schemas)"

section \<open>Values of the constraint language\<close>

text \<open>
  Modelled from the spec: the type \<^verbatim>\<open>cue.Value\<close> and its methods belong to the
  library \<^verbatim>\<open>cuelang.org/go/cue\<close>, which is not part of the repository. The
  specification (Constraint Engine Adapter) lists what the core needs of it: kind,
  fields with their optional flag, path lookup, list elements and the element type
  of a list, defaults, unification, subsumption, compilation and marshalling.

  A value is modelled by its shape: bottom (an error, with its message), a scalar
  (a literal or a basic constraint, by its source text), a struct (its fields in
  order: label, optional flag, value), a list (its elements, and the type \<open>T\<close> of
  further elements when the list is open, \<^verbatim>\<open>[...T]\<close>), or a disjunction (its
  operands). Schemas are finite values.
\<close>

datatype cue =
    Bottom string
  | Scalar string
  | Struct "(string \<times> bool \<times> cue) list"
  | Lst "cue list" "cue option"
  | Disj "cue list"

text \<open>
  Modelled from the spec: \<^verbatim>\<open>cue.Kind\<close>. The code compares kinds with
  \<^verbatim>\<open>BottomKind\<close>, \<^verbatim>\<open>StructKind\<close> and \<^verbatim>\<open>ListKind\<close> only; \<open>OtherKind\<close> stands for
  every other kind (the scalar kinds and every union of different kinds).
  \<open>Op\<close> is \<^verbatim>\<open>cue.Op\<close>: the code tests for \<^verbatim>\<open>OrOp\<close> only.
\<close>

datatype kind = BottomKind | StructKind | ListKind | OtherKind

datatype Op = OrOp | NoOp

text \<open>
  The operations whose result depends on the evaluator of the constraint language
  are parameters of the model: unification, subsumption (\<open>Subsume api v w\<close> is
  \<^verbatim>\<open>v.Subsume(w)\<close>, nil when \<open>w\<close> is an instance of \<open>v\<close>), \<^verbatim>\<open>Default\<close>, \<^verbatim>\<open>Eval\<close>,
  \<^verbatim>\<open>Validate(cue.Concrete(true))\<close>, \<^verbatim>\<open>Context().CompileString\<close> (source and file
  name) and \<^verbatim>\<open>cuejson.Marshal\<close>. A nil error is \<open>None\<close>.
\<close>

record cue_api =
  Unify :: "cue \<Rightarrow> cue \<Rightarrow> cue"
  Subsume :: "cue \<Rightarrow> cue \<Rightarrow> string option"
  Default :: "cue \<Rightarrow> cue \<times> bool"
  Eval :: "cue \<Rightarrow> cue"
  ValidateConcrete :: "cue \<Rightarrow> string option"
  CompileString :: "string \<Rightarrow> string \<Rightarrow> cue"
  Marshal :: "cue \<Rightarrow> string \<times> string option"

text \<open>
  Modelled from the spec: the structural methods of \<^verbatim>\<open>cue.Value\<close>, on the shape of
  the value. \<^verbatim>\<open>IncompleteKind\<close> of a disjunction is the union of the kinds of its
  operands. \<^verbatim>\<open>Kind\<close> is the concrete kind: bottom for an open list and for a
  disjunction. \<open>Fields v optional\<close> is \<^verbatim>\<open>v.Fields(cue.Optional(optional))\<close>, an error
  when the value is not a struct. \<open>LookupPath_Str v l\<close> is
  \<^verbatim>\<open>v.LookupPath(cue.MakePath(cue.Str(l)))\<close> with \<^verbatim>\<open>Exists\<close>: \<open>None\<close> when there is no
  regular field \<open>l\<close>. \<open>LookupPath_AnyIndex\<close> is the lookup of \<^verbatim>\<open>cue.AnyIndex\<close>: the
  element type of an open list. \<open>List_elems\<close> is \<^verbatim>\<open>v.List()\<close>, \<open>Len_Int64\<close> is
  \<^verbatim>\<open>v.Len().Int64()\<close> with its two results, \<open>Expr\<close> is \<^verbatim>\<open>v.Expr()\<close>, \<open>NewList\<close> is
  \<^verbatim>\<open>Context().NewList\<close>, and \<open>FillPath api v l x\<close> is
  \<^verbatim>\<open>v.FillPath(cue.MakePath(cue.Str(l)), x)\<close>: the field \<open>l\<close> of a struct is unified
  with \<open>x\<close>, or added when the struct has no such field.
\<close>

fun kind_join :: "kind \<Rightarrow> kind \<Rightarrow> kind" where
  "kind_join BottomKind k = k"
| "kind_join k BottomKind = k"
| "kind_join k k' = (if k = k' then k else OtherKind)"

fun IncompleteKind :: "cue \<Rightarrow> kind" where
  "IncompleteKind (Bottom m) = BottomKind"
| "IncompleteKind (Scalar a) = OtherKind"
| "IncompleteKind (Struct fs) = StructKind"
| "IncompleteKind (Lst es t) = ListKind"
| "IncompleteKind (Disj ds) = foldr kind_join (map IncompleteKind ds) BottomKind"

fun Kind :: "cue \<Rightarrow> kind" where
  "Kind (Bottom m) = BottomKind"
| "Kind (Scalar a) = OtherKind"
| "Kind (Struct fs) = StructKind"
| "Kind (Lst es None) = ListKind"
| "Kind (Lst es (Some t)) = BottomKind"
| "Kind (Disj ds) = BottomKind"

fun Err :: "cue \<Rightarrow> string option" where
  "Err (Bottom m) = Some m"
| "Err v = None"

fun Fields :: "cue \<Rightarrow> bool \<Rightarrow> string + (string \<times> bool \<times> cue) list" where
  "Fields (Struct fs) optional =
     Inr (if optional then fs else filter (\<lambda>(l, opt, v). \<not> opt) fs)"
| "Fields v optional = Inl ''not a struct''"

fun LookupPath_Str :: "cue \<Rightarrow> string \<Rightarrow> cue option" where
  "LookupPath_Str (Struct fs) l =
     (case find (\<lambda>(l', opt, v). l' = l \<and> \<not> opt) fs of
        Some (l', opt, v) \<Rightarrow> Some v
      | None \<Rightarrow> None)"
| "LookupPath_Str v l = None"

fun LookupPath_AnyIndex :: "cue \<Rightarrow> cue option" where
  "LookupPath_AnyIndex (Lst es (Some t)) = Some t"
| "LookupPath_AnyIndex v = None"

fun List_elems :: "cue \<Rightarrow> string + cue list" where
  "List_elems (Lst es t) = Inr es"
| "List_elems v = Inl ''not a list''"

fun Len_Int64 :: "cue \<Rightarrow> int \<times> string option" where
  "Len_Int64 (Lst es None) = (int (length es), None)"
| "Len_Int64 v = (0, Some ''not a concrete length'')"

fun Expr :: "cue \<Rightarrow> Op \<times> cue list" where
  "Expr (Disj ds) = (OrOp, ds)"
| "Expr v = (NoOp, [v])"

definition NewList :: "cue list \<Rightarrow> cue" where
  "NewList vs = Lst vs None"

fun fill_field ::
  "(cue \<Rightarrow> cue \<Rightarrow> cue) \<Rightarrow> (string \<times> bool \<times> cue) list \<Rightarrow> string \<Rightarrow> cue \<Rightarrow> (string \<times> bool \<times> cue) list" where
  "fill_field u [] l x = [(l, False, x)]"
| "fill_field u ((l', opt, v) # fs) l x =
     (if l' = l then (l', False, u v x) # fs else (l', opt, v) # fill_field u fs l x)"

fun FillPath :: "cue_api \<Rightarrow> cue \<Rightarrow> string \<Rightarrow> cue \<Rightarrow> cue" where
  "FillPath api (Struct fs) l x = Struct (fill_field (Unify api) fs l x)"
| "FillPath api (Bottom m) l x = Bottom m"
| "FillPath api v l x = Bottom ''conflicting values''"

section \<open>Instance utilities\<close>

text \<open>\<^verbatim>\<open>getBranch\<close>: the loop over the operands of a disjunction, then the function.\<close>

fun first_branch :: "cue_api \<Rightarrow> cue list \<Rightarrow> cue \<Rightarrow> cue option" where
  "first_branch api [] concretObj = None"
| "first_branch api (d # defs) concretObj =
     (case ValidateConcrete api (Unify api d concretObj) of
        None \<Rightarrow> Some d
      | Some e \<Rightarrow> first_branch api defs concretObj)"

definition getBranch :: "cue_api \<Rightarrow> cue \<Rightarrow> cue \<Rightarrow> cue \<times> string option" where
  "getBranch api schemaObj concretObj =
     (case Expr schemaObj of
        (OrOp, defs) \<Rightarrow>
          (case first_branch api defs concretObj of
             Some d \<Rightarrow> (d, None)
           | None \<Rightarrow> (schemaObj, Some ''no branch is found for list''))
      | (NoOp, defs) \<Rightarrow> (schemaObj, None))"

text \<open>
  \<^verbatim>\<open>getDefault\<close>. \<open>has_empty_list\<close> is the loop that sets \<^verbatim>\<open>defaultExist\<close>.
\<close>

fun has_empty_list :: "cue list \<Rightarrow> bool" where
  "has_empty_list [] = False"
| "has_empty_list (val # vals) =
     (if Kind val = ListKind \<and> fst (Len_Int64 val) \<le> 0 then True else has_empty_list vals)"

definition getDefault :: "cue_api \<Rightarrow> cue \<Rightarrow> cue \<times> bool" where
  "getDefault api icue =
     (case Default api icue of
        (d, exist) \<Rightarrow>
          if exist \<and> Kind d = ListKind then
            (case Len_Int64 d of
               (len, Some e) \<Rightarrow> (d, False)
             | (len, None) \<Rightarrow>
                 if len \<le> 0 then
                   (case Expr icue of
                      (OrOp, vals) \<Rightarrow> (d, has_empty_list vals)
                    | (NoOp, vals) \<Rightarrow> (d, False))
                 else (d, exist))
          else (d, exist))"

definition isCueValueEqual :: "cue_api \<Rightarrow> cue \<Rightarrow> cue \<Rightarrow> bool" where
  "isCueValueEqual api inputdef input =
     (case getDefault api inputdef of
        (d, exist) \<Rightarrow>
          if exist then Subsume api input d = None \<and> Subsume api d input = None else False)"

text \<open>
  \<^verbatim>\<open>applyDefaultHelper\<close>, with its loop over the elements of the input list
  (\<open>apply_elems\<close>, which returns early with an error of \<^verbatim>\<open>getBranch\<close>) and its loop
  over the fields of the schema (\<open>apply_fields\<close>, which updates \<^verbatim>\<open>input\<close>). In the
  struct case the test \<^verbatim>\<open>err != nil\<close> after the lookup reads the error of \<^verbatim>\<open>Fields\<close>,
  which is nil there. The recursion descends into the schema.
\<close>

function applyDefaultHelper :: "cue_api \<Rightarrow> cue \<Rightarrow> cue \<Rightarrow> cue \<times> string option"
  and apply_elems :: "cue_api \<Rightarrow> cue \<Rightarrow> cue list \<Rightarrow> cue list \<Rightarrow> string + cue list"
  and apply_fields :: "cue_api \<Rightarrow> cue \<Rightarrow> (string \<times> bool \<times> cue) list \<Rightarrow> cue"
where
  "applyDefaultHelper api input scue =
     (case IncompleteKind scue of
        ListKind \<Rightarrow>
          (case LookupPath_AnyIndex scue of
             Some ele \<Rightarrow>
               if IncompleteKind ele = BottomKind
               then (input, Some ''can't get the element of list'')
               else
                 (case List_elems input of
                    Inl e \<Rightarrow> (input, Some ''can't apply defaults for list'')
                  | Inr elems \<Rightarrow>
                      (case apply_elems api ele elems [] of
                         Inl e \<Rightarrow> (input, Some e)
                       | Inr iterlist \<Rightarrow>
                           (case Err (NewList iterlist) of
                              Some e \<Rightarrow> (input, Some e)
                            | None \<Rightarrow> (NewList iterlist, None))))
           | None \<Rightarrow> (Unify api input scue, None))
      | StructKind \<Rightarrow>
          (case Fields scue True of
             Inl e \<Rightarrow> (input, Some e)
           | Inr fs \<Rightarrow> (apply_fields api input fs, None))
      | BottomKind \<Rightarrow> (Unify api input scue, None)
      | OtherKind \<Rightarrow> (Unify api input scue, None))"
| "apply_elems api ele [] iterlist = Inr iterlist"
| "apply_elems api ele (v # vs) iterlist =
     (case getBranch api ele v of
        (ref, Some e) \<Rightarrow> Inl e
      | (ref, None) \<Rightarrow>
          (case applyDefaultHelper api v ref of
             (re, None) \<Rightarrow> apply_elems api ele vs (iterlist @ [re])
           | (re, Some e) \<Rightarrow> apply_elems api ele vs iterlist))"
| "apply_fields api input [] = input"
| "apply_fields api input ((lable, optional, fv) # rest) =
     (case LookupPath_Str input lable of
        Some lv \<Rightarrow>
          (case applyDefaultHelper api lv fv of
             (res, Some e) \<Rightarrow> apply_fields api input rest
           | (res, None) \<Rightarrow> apply_fields api (FillPath api input lable res) rest)
      | None \<Rightarrow>
          if \<not> optional
          then apply_fields api (FillPath api input lable (Eval api fv)) rest
          else apply_fields api input rest)"
  by pat_completeness auto

termination
proof -
  have filter_le: "size_list f (filter P xs) \<le> size_list f xs"
    for f :: "string \<times> bool \<times> cue \<Rightarrow> nat" and P xs
    by (induction xs) auto
  have fields: "size_list (size_prod (\<lambda>_. 0) (size_prod (\<lambda>_. 0) size)) fs < size scue"
    if "Fields scue b = Inr fs" for scue b fs
    using that by (cases scue) (auto simp: less_Suc_eq_le filter_le)
  have any_index: "Suc (size ele) < size scue"
    if "LookupPath_AnyIndex scue = Some ele" for scue ele
    using that by (induction scue rule: LookupPath_AnyIndex.induct) auto
  have member: "d \<in> set defs" if "first_branch api defs c = Some d" for api defs c d
    using that by (induction defs) (auto split: option.splits)
  have mem_le: "size x \<le> size_list size xs" if "x \<in> set xs" for x :: cue and xs
    using that by (induction xs) auto
  have branch: "size ref \<le> size ele" if "(ref, e) = getBranch api ele v" for ref e api ele v
    using that
    by (cases ele)
      (auto simp: getBranch_def le_Suc_eq mem_le split: option.splits dest!: member)
  show ?thesis
    by (relation "measures [\<lambda>x. case x of
            Inl (api, input, scue) \<Rightarrow> 2 * size scue + 1
          | Inr (Inl (api, ele, vs, acc)) \<Rightarrow> 2 * size ele + 2
          | Inr (Inr (api, input, fs)) \<Rightarrow>
              2 * size_list (size_prod (\<lambda>_. 0) (size_prod (\<lambda>_. 0) size)) fs,
          \<lambda>x. case x of
            Inl (api, input, scue) \<Rightarrow> 0
          | Inr (Inl (api, ele, vs, acc)) \<Rightarrow> length vs
          | Inr (Inr (api, input, fs)) \<Rightarrow> length fs]")
      (auto dest!: fields any_index branch)
qed

text \<open>
  \<^verbatim>\<open>removeDefaultHelper\<close>, with its first loop over the fields of the schema
  (\<open>remove_fields\<close>, which builds \<^verbatim>\<open>rv\<close> and \<^verbatim>\<open>keySet\<close>), its second loop over the
  fields of the input (\<open>keep_unknown\<close>) and its loop over the elements of the input
  list (\<open>remove_elems\<close>).
\<close>

fun keep_unknown :: "cue_api \<Rightarrow> string set \<Rightarrow> (string \<times> bool \<times> cue) list \<Rightarrow> cue \<Rightarrow> cue" where
  "keep_unknown api keySet [] rv = rv"
| "keep_unknown api keySet ((lable, optional, v) # rest) rv =
     (if lable \<in> keySet then keep_unknown api keySet rest rv
      else keep_unknown api keySet rest (FillPath api rv lable v))"

function removeDefaultHelper :: "cue_api \<Rightarrow> cue \<Rightarrow> cue \<Rightarrow> cue \<times> bool \<times> string option"
  and remove_fields ::
    "cue_api \<Rightarrow> cue \<Rightarrow> (string \<times> bool \<times> cue) list \<Rightarrow> cue \<Rightarrow> string set \<Rightarrow> cue \<times> string set"
  and remove_elems :: "cue_api \<Rightarrow> cue \<Rightarrow> cue list \<Rightarrow> cue list \<Rightarrow> cue list"
where
  "removeDefaultHelper api inputdef input =
     (case Err (CompileString api [] ''helper'') of
        Some e \<Rightarrow> (input, False, Some e)
      | None \<Rightarrow>
          (case IncompleteKind inputdef of
             StructKind \<Rightarrow>
               (case Fields inputdef True of
                  Inl e \<Rightarrow> (CompileString api [] ''helper'', False, Some e)
                | Inr fs \<Rightarrow>
                    (case remove_fields api input fs (CompileString api [] ''helper'') {} of
                       (rv, keySet) \<Rightarrow>
                         (case Fields input False of
                            Inl e \<Rightarrow> (rv, False, Some e)
                          | Inr ifs \<Rightarrow> (keep_unknown api keySet ifs rv, False, None))))
           | ListKind \<Rightarrow>
               if isCueValueEqual api inputdef input
               then (CompileString api [] ''helper'', True, None)
               else
                 (case LookupPath_AnyIndex inputdef of
                    Some ele \<Rightarrow>
                      if IncompleteKind ele = BottomKind
                      then (CompileString api [] ''helper'', True, None)
                      else
                        (case List_elems input of
                           Inl e \<Rightarrow> (CompileString api [] ''helper'', True, None)
                         | Inr elems \<Rightarrow>
                             (NewList (remove_elems api ele elems []), False,
                              Err (NewList (remove_elems api ele elems []))))
                  | None \<Rightarrow> (input, False, None))
           | BottomKind \<Rightarrow>
               if isCueValueEqual api inputdef input then (input, True, None)
               else (input, False, None)
           | OtherKind \<Rightarrow>
               if isCueValueEqual api inputdef input then (input, True, None)
               else (input, False, None)))"
| "remove_fields api input [] rv keySet = (rv, keySet)"
| "remove_fields api input ((lable, optional, fv) # rest) rv keySet =
     (case LookupPath_Str input lable of
        Some lv \<Rightarrow>
          (case removeDefaultHelper api fv lv of
             (re, isEqual, err) \<Rightarrow>
               if err = None \<and> \<not> isEqual
               then remove_fields api input rest (FillPath api rv lable re) (insert lable keySet)
               else remove_fields api input rest rv (insert lable keySet))
      | None \<Rightarrow> remove_fields api input rest rv (insert lable keySet))"
| "remove_elems api ele [] iterlist = iterlist"
| "remove_elems api ele (v # vs) iterlist =
     (case getBranch api ele v of
        (ref, Some e) \<Rightarrow> remove_elems api ele vs (iterlist @ [v])
      | (ref, None) \<Rightarrow>
          (case removeDefaultHelper api ref v of
             (re, isEqual, err) \<Rightarrow>
               if err = None \<and> \<not> isEqual
               then remove_elems api ele vs (iterlist @ [re])
               else remove_elems api ele vs (iterlist @ [v])))"
  by pat_completeness auto
termination
proof -
  have filter_le: "size_list f (filter P xs) \<le> size_list f xs"
    for f :: "string \<times> bool \<times> cue \<Rightarrow> nat" and P xs
    by (induction xs) auto
  have fields: "size_list (size_prod (\<lambda>_. 0) (size_prod (\<lambda>_. 0) size)) fs < size scue"
    if "Fields scue b = Inr fs" for scue b fs
    using that by (cases scue) (auto simp: less_Suc_eq_le filter_le)
  have any_index: "Suc (size ele) < size scue"
    if "LookupPath_AnyIndex scue = Some ele" for scue ele
    using that by (induction scue rule: LookupPath_AnyIndex.induct) auto
  have member: "d \<in> set defs" if "first_branch api defs c = Some d" for api defs c d
    using that by (induction defs) (auto split: option.splits)
  have mem_le: "size x \<le> size_list size xs" if "x \<in> set xs" for x :: cue and xs
    using that by (induction xs) auto
  have branch: "size ref \<le> size ele" if "(ref, e) = getBranch api ele v" for ref e api ele v
    using that
    by (cases ele)
      (auto simp: getBranch_def le_Suc_eq mem_le split: option.splits dest!: member)
  show ?thesis
    by (relation "measures [\<lambda>x. case x of
            Inl (api, inputdef, input) \<Rightarrow> 2 * size inputdef + 1
          | Inr (Inl (api, input, fs, rv, keySet)) \<Rightarrow>
              2 * size_list (size_prod (\<lambda>_. 0) (size_prod (\<lambda>_. 0) size)) fs
          | Inr (Inr (api, ele, vs, acc)) \<Rightarrow> 2 * size ele + 2,
          \<lambda>x. case x of
            Inl (api, inputdef, input) \<Rightarrow> 0
          | Inr (Inl (api, input, fs, rv, keySet)) \<Rightarrow> length fs
          | Inr (Inr (api, ele, vs, acc)) \<Rightarrow> length vs]")
      (auto dest!: fields any_index branch)
qed

text \<open>
  A \<^verbatim>\<open>Resource\<close>. Its \<^verbatim>\<open>Value\<close> is an \<^verbatim>\<open>interface{}\<close>: a Go string, or one of the
  other payloads the documentation names, or nil.
\<close>

datatype GoValue = GoString string | GoBytes "8 word list" | GoStruct | GoCueValue cue | GoNil

record Resource =
  Value :: GoValue
  Name :: string

text \<open>
  \<^verbatim>\<open>bytes.Replace(s, old, new, -1)\<close> for a non-empty \<open>old\<close>: every occurrence, from
  the left, without overlap.
\<close>

function replace_all :: "string \<Rightarrow> string \<Rightarrow> string \<Rightarrow> string" where
  "replace_all old new s =
     (if s = [] \<or> old = [] then s
      else if take (length old) s = old then new @ replace_all old new (drop (length old) s)
      else hd s # replace_all old new (tl s))"
  by pat_completeness auto
termination
  by (relation "measure (\<lambda>(old, new, s). length s)") (auto simp: neq_Nil_conv)

definition convertCUEValueToString :: "cue_api \<Rightarrow> cue \<Rightarrow> string \<times> string option" where
  "convertCUEValueToString api inputCUE =
     (case Marshal api inputCUE of
        (re, Some e) \<Rightarrow> (re, Some e)
      | (re, None) \<Rightarrow>
          (replace_all (CHR 0x5C # ''u0026'') ''&''
             (replace_all (CHR 0x5C # ''u003e'') ''>''
                (replace_all (CHR 0x5C # ''u003c'') ''<'' re)), None))"

text \<open>
  \<^verbatim>\<open>ApplyDefaults\<close> and \<^verbatim>\<open>TrimDefaults\<close>. The type assertion \<^verbatim>\<open>r.Value.(string)\<close>
  panics when the payload is not a string.
\<close>

definition ApplyDefaults :: "cue_api \<Rightarrow> Resource \<Rightarrow> cue \<Rightarrow> panic + Resource \<times> string option" where
  "ApplyDefaults api r scue =
     (let name = (if Name r = [] then ''resource'' else Name r) in
      case Value r of
        GoString src \<Rightarrow>
          (let rv = CompileString api src name in
           case Err rv of
             Some e \<Rightarrow> Inr (r, Some e)
           | None \<Rightarrow>
               (case applyDefaultHelper api rv scue of
                  (rvUnified, Some e) \<Rightarrow> Inr (r, Some e)
                | (rvUnified, None) \<Rightarrow>
                    (case convertCUEValueToString api rvUnified of
                       (re, Some e) \<Rightarrow> Inr (r, Some e)
                     | (re, None) \<Rightarrow> Inr (\<lparr>Value = GoString re, Name = []\<rparr>, None))))
      | GoBytes b \<Rightarrow> Inl InterfaceConversion
      | GoStruct \<Rightarrow> Inl InterfaceConversion
      | GoCueValue c \<Rightarrow> Inl InterfaceConversion
      | GoNil \<Rightarrow> Inl InterfaceConversion)"

definition TrimDefaults :: "cue_api \<Rightarrow> Resource \<Rightarrow> cue \<Rightarrow> panic + Resource \<times> string option" where
  "TrimDefaults api r scue =
     (let name = (if Name r = [] then ''resource'' else Name r) in
      case Value r of
        GoString src \<Rightarrow>
          (let rvInstance = CompileString api src name in
           case Err rvInstance of
             Some e \<Rightarrow> Inr (r, Some e)
           | None \<Rightarrow>
               (case removeDefaultHelper api scue rvInstance of
                  (rv, isEqual, Some e) \<Rightarrow> Inr (r, Some e)
                | (rv, isEqual, None) \<Rightarrow>
                    (case convertCUEValueToString api rv of
                       (re, Some e) \<Rightarrow> Inr (r, Some e)
                     | (re, None) \<Rightarrow> Inr (\<lparr>Value = GoString re, Name = []\<rparr>, None))))
      | GoBytes b \<Rightarrow> Inl InterfaceConversion
      | GoStruct \<Rightarrow> Inl InterfaceConversion
      | GoCueValue c \<Rightarrow> Inl InterfaceConversion
      | GoNil \<Rightarrow> Inl InterfaceConversion)"

section \<open>Fields of structs\<close>

text \<open>
  A struct of data has regular fields only. \<open>applied_field\<close> is what the struct case
  of \<^verbatim>\<open>applyDefaultHelper\<close> leaves in a field of the schema, from the input's value
  at the label (if any), the optional flag and the value of the schema field.
\<close>

definition regular_fields :: "(string \<times> bool \<times> cue) list \<Rightarrow> bool" where
  "regular_fields fs = list_all (\<lambda>f. \<not> fst (snd f)) fs"

definition applied_field :: "cue_api \<Rightarrow> cue option \<Rightarrow> bool \<Rightarrow> cue \<Rightarrow> cue option" where
  "applied_field api lvo optional fv =
     (case lvo of
        Some lv \<Rightarrow>
          (case applyDefaultHelper api lv fv of
             (res, None) \<Rightarrow> Some (Unify api lv res)
           | (res, Some e) \<Rightarrow> Some lv)
      | None \<Rightarrow> if optional then None else Some (Eval api fv))"


section \<open>A small adapter for examples\<close>

text \<open>
  An instance of the parameters, enough to run the functions on small values: the
  first operand of a disjunction is its default, the default of an open list is the
  closed list of its elements, a value unifies with itself, with the basic types
  and with a disjunction that has it as an operand, and subsumption is equality.
  The empty source compiles to the empty struct, a source \<^verbatim>\<open>l: v\<close> with a label of
  one letter to the struct of that field, and any other source to a scalar.
\<close>

fun sample_Unify :: "cue \<Rightarrow> cue \<Rightarrow> cue" where
  "sample_Unify a (Disj ds) = (if a \<in> set ds then a else Bottom ''empty disjunction'')"
| "sample_Unify a b =
     (if a = b \<or> b = Scalar ''int'' \<or> b = Scalar ''string'' then a
      else Bottom ''conflicting values'')"

fun sample_Default :: "cue \<Rightarrow> cue \<times> bool" where
  "sample_Default (Disj (d # ds)) = (d, True)"
| "sample_Default (Lst es (Some t)) = (Lst es None, True)"
| "sample_Default v = (v, False)"

definition sample_CompileString :: "string \<Rightarrow> string \<Rightarrow> cue" where
  "sample_CompileString src name =
     (if src = [] then Struct []
      else if 3 < length src \<and> take 2 (tl src) = '': ''
      then Struct [([hd src], False, Scalar (drop 3 src))]
      else Scalar src)"

fun field_text :: "string \<times> bool \<times> cue \<Rightarrow> string" where
  "field_text (l, optional, Scalar s) = l @ '': '' @ s @ '';''"
| "field_text (l, optional, v) = l @ '': _;''"

fun sample_Marshal :: "cue \<Rightarrow> string \<times> string option" where
  "sample_Marshal (Scalar s) = (s, None)"
| "sample_Marshal (Struct fs) = (''{'' @ concat (map field_text fs) @ ''}'', None)"
| "sample_Marshal v = ([], Some ''cannot marshal'')"

definition sample_api :: cue_api where
  "sample_api =
     \<lparr>Unify = sample_Unify,
      Subsume = (\<lambda>a b. if a = b then None else Some ''not an instance''),
      Default = sample_Default,
      Eval = (\<lambda>v. fst (sample_Default v)),
      ValidateConcrete = Err,
      CompileString = sample_CompileString,
      Marshal = sample_Marshal\<rparr>"

section \<open>Facts about the option check\<close>

lemma OnesCount16_values:
  "OnesCount16 0 = 0" "OnesCount16 2 = 1" "OnesCount16 4 = 1" "OnesCount16 16 = 1"
  "OnesCount16 6 = 2" "OnesCount16 18 = 2" "OnesCount16 20 = 2" "OnesCount16 22 = 3"
  by (simp_all add: OnesCount16_def upt_rec bit_numeral_simps)

lemmas option_defs =
  Exact_def Latest_def LatestInMajor_def LatestInCurrentMajor_def ssopt_zero_def

lemmas validate_defs = validate_def validate_count_def OnesCount16_values

section \<open>Find\<close>

text \<open>
  Claim C1. The claim is that \<open>Find\<close> with \<open>Exact (major s) (minor s)\<close> returns
  \<open>s\<close>, in particular for the first schema, at version (0, 0). On the code the
  option \<open>Exact 0 0\<close> leaves \<^verbatim>\<open>p.exact\<close> at its zero value, \<^verbatim>\<open>validate\<close> counts no
  option, and \<open>Find\<close> panics for every schema at version (0, 0), whatever follows it.
\<close>

theorem Find_Exact_zero_panics:
  "Find (Some (MkSchema 0 0 f nx)) (Exact 0 0) = Inl (Unreachable NotOneOption)"
  by (simp add: Find_def option_defs validate_defs)

text \<open>
  For every other version the exact search does return the first schema of the
  chain at that version, so a schema not at (0, 0) is found from itself.
\<close>

lemma exact_loop_find:
  "exact_loop e s = find (\<lambda>x. Version x = e) (flatten s)"
  by (induction e s rule: exact_loop.induct) (auto simp: Version_def)

lemma Find_Exact_nonzero:
  "(a, b) \<noteq> (0, 0) \<Longrightarrow>
     Find (Some s) (Exact a b) = Inr (find (\<lambda>x. Version x = (a, b)) (flatten (Some s)))"
  by (simp add: Find_def option_defs validate_defs exact_loop_find del: exact_loop.simps)

lemma Find_Exact_self:
  "Version s \<noteq> (0, 0) \<Longrightarrow> Find (Some s) (Exact (major s) (minor s)) = Inr (Some s)"
  using Find_Exact_nonzero [of "major s" "minor s" s]
  by (cases s) (simp add: Version_def)

text \<open>
  Claim C2. The claim is that \<open>Find s (LatestInMajor m)\<close> returns the newest schema
  of major version \<open>m\<close>, or nil when \<open>m\<close> is beyond the last major version. On the
  code \<open>LatestInMajor\<close> never sets \<^verbatim>\<open>hasLatestInMajor\<close>, so \<^verbatim>\<open>validate\<close> returns an
  error for every \<open>m\<close> and \<open>Find\<close> panics on every non-nil schema.
\<close>

theorem Find_LatestInMajor_panics:
  "Find (Some s) (LatestInMajor m) =
     Inl (Unreachable (if m = 0 then NotOneOption else LatestInMajorNonZero m))"
  by (simp add: Find_def option_defs validate_defs)

text \<open>
  Claim C5, as stated: a nil schema makes \<open>Find\<close> panic. It does not: the first
  statement of \<open>Find\<close> returns nil for a nil schema.
\<close>

theorem Find_nil_schema_returns_nil:
  "Find (None :: unit Schema option) Latest = Inr None"
  by (simp add: Find_def)

text \<open>
  Claim C5, amended. A nil schema gives a normal nil return, whatever the option.
  On a non-nil schema \<open>Find\<close> panics when the option sets nothing (no option),
  and when it sets two or three different criteria among \<open>Latest\<close>,
  \<open>LatestInCurrentMajor\<close> and \<open>Exact a b\<close> with \<open>(a, b) \<noteq> (0, 0)\<close>.
\<close>

theorem Find_misuse:
  "Find (None :: 'v Schema option) opt = Inr None \<and>
   Find (Some (s :: 'v Schema)) (\<lambda>p. p) = Inl (Unreachable NotOneOption) \<and>
   Find (Some s) (LatestInCurrentMajor \<circ> Latest) = Inl (Unreachable NotOneOption) \<and>
   ((a, b) \<noteq> (0, 0) \<longrightarrow>
      Find (Some s) (Exact a b \<circ> Latest) = Inl (Unreachable NotOneOption) \<and>
      Find (Some s) (Exact a b \<circ> LatestInCurrentMajor) = Inl (Unreachable NotOneOption) \<and>
      Find (Some s) (Exact a b \<circ> LatestInCurrentMajor \<circ> Latest) =
        Inl (Unreachable NotOneOption))"
  by (simp add: Find_def option_defs validate_defs)

theorem Find_misuse_witness:
  "(1 :: int, 0 :: int) \<noteq> (0, 0) \<and>
   Find (Some (MkSchema 0 0 (\<lambda>u :: unit. None) None)) (Exact 1 0 \<circ> Latest) =
     Inl (Unreachable NotOneOption)"
  using Find_misuse [where opt = Latest and s = "MkSchema 0 0 (\<lambda>u :: unit. None) None"
      and a = 1 and b = 0]
  by simp

section \<open>AsArray and SearchAndValidate\<close>

subsection \<open>The loops as a search along the visiting order\<close>

lemma first_valid_append:
  "first_valid (xs @ ys) v err =
     (case first_valid xs v err of (Some x, e) \<Rightarrow> (Some x, e) | (None, e) \<Rightarrow> first_valid ys v e)"
  by (induction xs arbitrary: err) (auto split: option.splits)

lemma inner_loop_first_valid:
  "i \<le> length row \<Longrightarrow>
     inner_loop row v i err =
       (case first_valid (rev (take i row)) v err of (Some x, e) \<Rightarrow> Inl x | (None, e) \<Rightarrow> Inr e)"
proof (induction i arbitrary: err)
  case 0
  then show ?case by simp
next
  case (Suc i)
  then have i: "i < length row" by simp
  have "rev (take (Suc i) row) = row ! i # rev (take i row)"
    using i by (simp add: take_Suc_conv_app_nth)
  with Suc show ?case by (simp split: option.splits)
qed

lemma first_valid_Some_err: "first_valid xs v err = (Some x, e) \<Longrightarrow> e = None"
  by (induction xs arbitrary: err) (auto split: option.splits)

lemma outer_loop_first_valid:
  "k \<le> length arr \<Longrightarrow>
     outer_loop arr v k err = first_valid (visit_order (take k arr)) v err"
proof (induction k arbitrary: err)
  case 0
  then show ?case by (simp add: visit_order_def)
next
  case (Suc k)
  then have k: "k < length arr" by simp
  have vo: "visit_order (take (Suc k) arr) = rev (arr ! k) @ visit_order (take k arr)"
    using k by (simp add: visit_order_def take_Suc_conv_app_nth)
  show ?case
    using Suc k
    by (auto simp: vo first_valid_append inner_loop_first_valid
        split: option.splits prod.splits dest: first_valid_Some_err)
qed

lemma visit_order_rev_concat: "visit_order arr = rev (concat arr)"
  by (simp add: visit_order_def rev_concat rev_map)

lemma first_valid_find:
  "first_valid xs v err =
     (case find (\<lambda>x. Validate x v = None) xs of
        Some x \<Rightarrow> (Some x, None)
      | None \<Rightarrow> (None, if xs = [] then err else Validate (last xs) v))"
  by (induction xs arbitrary: err) (auto split: option.splits)

lemma SearchAndValidate_first_valid:
  "AsArray s = Inr arr \<Longrightarrow>
     SearchAndValidate s v = Inr (first_valid (rev (concat arr)) v None)"
  by (simp add: SearchAndValidate_def outer_loop_first_valid visit_order_rev_concat)

lemma place_new_row:
  "major x = int (length ret) \<Longrightarrow> place ret x = Inr (ret @ [[x]])"
  by (simp add: place_def)

lemma place_last_row:
  "major x = int (length ys) \<Longrightarrow> place (ys @ [y]) x = Inr (ys @ [y @ [x]])"
  by (simp add: place_def nth_append)

lemma collate_ascending:
  "ascending xs \<Longrightarrow>
   (case xs of [] \<Rightarrow> True
    | x # _ \<Rightarrow> major x = int (length ret) \<or> (ret \<noteq> [] \<and> major x = int (length ret) - 1)) \<Longrightarrow>
   \<exists>arr. collate ret xs = Inr arr \<and> concat arr = concat ret @ xs"
proof (induction xs arbitrary: ret)
  case Nil
  then show ?case by simp
next
  case (Cons x xs)
  have asc: "ascending xs" using Cons.prems(1) by (cases xs) auto
  have nxt: "case xs of [] \<Rightarrow> True | y # _ \<Rightarrow> major y = major x \<or> major y = major x + 1"
    using Cons.prems(1) by (cases xs) auto
  from Cons.prems(2) consider
      (new) "major x = int (length ret)"
    | (old) "ret \<noteq> []" "major x = int (length ret) - 1"
    by auto
  then show ?case
  proof cases
    case new
    have p: "place ret x = Inr (ret @ [[x]])" using new by (rule place_new_row)
    have "case xs of [] \<Rightarrow> True
          | y # _ \<Rightarrow> major y = int (length (ret @ [[x]])) \<or>
              (ret @ [[x]] \<noteq> [] \<and> major y = int (length (ret @ [[x]])) - 1)"
      using nxt new by (cases xs) auto
    from Cons.IH [OF asc this] show ?thesis using p by auto
  next
    case old
    then obtain ys y where ret: "ret = ys @ [y]" by (cases ret rule: rev_cases) auto
    have p: "place ret x = Inr (ys @ [y @ [x]])"
      unfolding ret using old ret by (intro place_last_row) simp
    have "case xs of [] \<Rightarrow> True
          | z # _ \<Rightarrow> major z = int (length (ys @ [y @ [x]])) \<or>
              (ys @ [y @ [x]] \<noteq> [] \<and> major z = int (length (ys @ [y @ [x]])) - 1)"
      using nxt old ret by (cases xs) auto
    from Cons.IH [OF asc this] show ?thesis using p ret by auto
  qed
qed

lemma ver_less_trans: "ver_less a b \<Longrightarrow> ver_less b c \<Longrightarrow> ver_less a c"
  by (auto simp: ver_less_def)

lemma ascending_head_least:
  "ascending (x # xs) \<Longrightarrow> y \<in> set xs \<Longrightarrow> ver_less (Version x) (Version y)"
proof (induction xs arbitrary: x)
  case Nil
  then show ?case by simp
next
  case (Cons z zs)
  have step: "ver_less (Version x) (Version z)"
    using Cons.prems(1) by (auto simp: ver_less_def Version_def)
  show ?case
  proof (cases "y = z")
    case True
    with step show ?thesis by simp
  next
    case False
    with Cons.prems have "y \<in> set zs" "ascending (z # zs)" by auto
    with Cons.IH have "ver_less (Version z) (Version y)" by blast
    with step show ?thesis by (rule ver_less_trans)
  qed
qed

lemma ascending_sorted:
  "ascending xs \<Longrightarrow> sorted_wrt (\<lambda>x y. ver_less (Version x) (Version y)) xs"
proof (induction xs)
  case Nil
  then show ?case by simp
next
  case (Cons x xs)
  have "ascending xs" using Cons.prems by (cases xs) auto
  with Cons.IH Cons.prems show ?case by (auto dest: ascending_head_least)
qed

lemma flatten_Some: "flatten (Some s) = s # flatten (Successor s)"
  by (cases s) simp

lemma SearchAndValidate_visit_order:
  assumes "lineage_chain s"
  shows "\<exists>arr. AsArray (Some s) = Inr arr \<and>
           visit_order arr = rev (flatten (Some s)) \<and>
           sorted_wrt (\<lambda>x y. ver_less (Version y) (Version x)) (visit_order arr) \<and>
           SearchAndValidate (Some s) v =
             Inr (case find (\<lambda>x. Validate x v = None) (visit_order arr) of
                    Some x \<Rightarrow> (Some x, None)
                  | None \<Rightarrow> (None, Validate s v))"
proof -
  let ?flat = "flatten (Some s)"
  have asc: "ascending ?flat" and maj: "major s = 0"
    using assms by (simp_all add: lineage_chain_def)
  have hd: "?flat = s # flatten (Successor s)" by (rule flatten_Some)
  have "case ?flat of [] \<Rightarrow> True
        | x # _ \<Rightarrow> major x = int (length ([] :: 'a Schema list list)) \<or>
            (([] :: 'a Schema list list) \<noteq> [] \<and> major x = int (length ([] :: 'a Schema list list)) - 1)"
    using maj by (simp add: hd)
  from collate_ascending [OF asc this]
  obtain arr where arr: "AsArray (Some s) = Inr arr" and cc: "concat arr = ?flat"
    by (auto simp: AsArray_def)
  have vo: "visit_order arr = rev ?flat"
    by (simp add: visit_order_rev_concat cc)
  have sorted: "sorted_wrt (\<lambda>x y. ver_less (Version y) (Version x)) (visit_order arr)"
    unfolding vo sorted_wrt_rev using asc by (rule ascending_sorted)
  have ne: "visit_order arr \<noteq> []" and last: "last (visit_order arr) = s"
    unfolding vo by (simp_all add: hd)
  have "SearchAndValidate (Some s) v = Inr (first_valid (visit_order arr) v None)"
    using SearchAndValidate_first_valid [OF arr] by (simp add: visit_order_rev_concat)
  also have "first_valid (visit_order arr) v None =
      (case find (\<lambda>x. Validate x v = None) (visit_order arr) of
         Some x \<Rightarrow> (Some x, None)
       | None \<Rightarrow> (None, Validate s v))"
    by (simp add: first_valid_find ne last cong: option.case_cong)
  finally show ?thesis using arr vo sorted by blast
qed

lemma find_sorted_wrt_first:
  "sorted_wrt R xs \<Longrightarrow> find P xs = Some x \<Longrightarrow> y \<in> set xs \<Longrightarrow> P y \<Longrightarrow> y = x \<or> R x y"
  by (induction xs) (auto split: if_splits)

lemma in_set_nonempty: "x \<in> set ys \<Longrightarrow> ys \<noteq> []"
  by auto

lemma place_cases:
  assumes "place ret x = Inr ret1"
  shows "(major x = int (length ret) \<and> ret1 = ret @ [[x]]) \<or>
         (\<exists>n < length ret. major x = int n \<and> ret1 = ret[n := ret ! n @ [x]])"
proof (cases "int (length ret) = major x")
  case True
  then have "nat (major x) = length ret" by simp
  with assms True show ?thesis by (simp add: place_def Let_def)
next
  case False
  with assms have "0 \<le> major x" "major x < int (length ret)"
    and r: "ret1 = ret[nat (major x) := ret ! nat (major x) @ [x]]"
    by (auto simp: place_def Let_def split: if_splits)
  then have "nat (major x) < length ret" "major x = int (nat (major x))" by auto
  with r show ?thesis by blast
qed

lemma concat_update_snoc:
  "n < length ret \<Longrightarrow>
     concat (ret[n := ret ! n @ [x]]) =
       concat (take n ret) @ ret ! n @ [x] @ concat (drop (Suc n) ret)"
  by (simp add: upd_conv_take_nth_drop)

lemma concat_split_nth:
  "n < length ret \<Longrightarrow> concat ret = concat (take n ret) @ ret ! n @ concat (drop (Suc n) ret)"
  by (metis append_Cons append_Nil concat.simps(2) concat_append id_take_nth_drop)

lemma place_props:
  assumes "place ret x = Inr ret1" and "[] \<notin> set ret"
  shows "[] \<notin> set ret1 \<and> set (concat ret1) = insert x (set (concat ret)) \<and>
         hd (concat ret1) = hd (concat ret @ [x])"
  using place_cases [OF assms(1)]
proof (elim disjE conjE exE)
  assume "ret1 = ret @ [[x]]"
  with assms(2) show ?thesis by auto
next
  fix n assume n: "n < length ret" and r: "ret1 = ret[n := ret ! n @ [x]]"
  have ne: "ret ! n \<noteq> []" using n assms(2) by (metis nth_mem)
  have a: "[] \<notin> set ret1"
    using assms(2) set_update_subset_insert [of ret n "ret ! n @ [x]"] by (auto simp: r)
  define A B where "A = concat (take n ret)" and "B = concat (drop (Suc n) ret)"
  have old: "concat ret = A @ ret ! n @ B"
    unfolding A_def B_def by (rule concat_split_nth [OF n])
  have new: "concat ret1 = A @ ret ! n @ [x] @ B"
    unfolding A_def B_def r by (rule concat_update_snoc [OF n])
  have b: "set (concat ret1) = insert x (set (concat ret))"
    unfolding old new by auto
  have c: "hd (concat ret1) = hd (concat ret @ [x])"
    unfolding old new using ne by (simp add: hd_append)
  from a b c show ?thesis by blast
qed

lemma hd_append_snoc: "hd (ys @ [x]) = hd (ys @ x # xs)"
  by (cases ys) simp_all

lemma collate_props:
  "collate ret xs = Inr arr \<Longrightarrow> [] \<notin> set ret \<Longrightarrow>
     set (concat arr) = set (concat ret) \<union> set xs \<and> hd (concat arr) = hd (concat ret @ xs)"
proof (induction xs arbitrary: ret)
  case Nil
  then show ?case by simp
next
  case (Cons x xs)
  from Cons.prems(1) obtain ret1 where p: "place ret x = Inr ret1" and c: "collate ret1 xs = Inr arr"
    by (cases "place ret x") simp_all
  note pp = place_props [OF p Cons.prems(2)]
  note e1 = pp [THEN conjunct1] and e2 = pp [THEN conjunct2, THEN conjunct1]
    and e3 = pp [THEN conjunct2, THEN conjunct2]
  note ih = Cons.IH [OF c e1]
  have "x \<in> set (concat ret1)" unfolding e2 by (rule insertI1)
  then have ne: "concat ret1 \<noteq> []" by (rule in_set_nonempty)
  have s: "set (concat arr) = set (concat ret) \<union> set (x # xs)"
    unfolding ih [THEN conjunct1] e2 by (simp del: set_concat)
  have "hd (concat arr) = hd (concat ret1)"
    unfolding ih [THEN conjunct2] using ne by (rule hd_append2)
  also have "\<dots> = hd (concat ret @ x # xs)"
    unfolding e3 by (rule hd_append_snoc)
  finally show ?case using s by (rule conjI [rotated])
qed


text \<open>
  Claim C3. From the first schema of a lineage chain, \<open>AsArray\<close> returns an array
  whose visiting order is the chain reversed, that is strictly newest to oldest
  (every schema visited later has a smaller version). \<open>SearchAndValidate\<close> returns
  the first schema of that order that accepts the value, with a nil error; so
  every other accepting schema of the chain is older than the one returned. When
  no schema accepts, no schema is returned.
\<close>

theorem SearchAndValidate_newest_accepting:
  assumes "lineage_chain s"
  shows "\<exists>arr. AsArray (Some s) = Inr arr \<and>
           visit_order arr = rev (flatten (Some s)) \<and>
           sorted_wrt (\<lambda>x y. ver_less (Version y) (Version x)) (visit_order arr) \<and>
           SearchAndValidate (Some s) v =
             Inr (case find (\<lambda>x. Validate x v = None) (visit_order arr) of
                    Some x \<Rightarrow> (Some x, None)
                  | None \<Rightarrow> (None, Validate s v)) \<and>
           (\<forall>x e y. SearchAndValidate (Some s) v = Inr (Some x, e) \<and>
                y \<in> set (flatten (Some s)) \<and> Validate y v = None \<longrightarrow>
                Validate x v = None \<and> (y = x \<or> ver_less (Version y) (Version x)))"
proof -
  from SearchAndValidate_visit_order [OF assms, of v]
  obtain arr where arr: "AsArray (Some s) = Inr arr"
    and vo: "visit_order arr = rev (flatten (Some s))"
    and sorted: "sorted_wrt (\<lambda>x y. ver_less (Version y) (Version x)) (visit_order arr)"
    and res: "SearchAndValidate (Some s) v =
             Inr (case find (\<lambda>x. Validate x v = None) (visit_order arr) of
                    Some x \<Rightarrow> (Some x, None)
                  | None \<Rightarrow> (None, Validate s v))"
    by blast
  have newest: "Validate x v = None \<and> (y = x \<or> ver_less (Version y) (Version x))"
    if r: "SearchAndValidate (Some s) v = Inr (Some x, e)"
      and y: "y \<in> set (flatten (Some s))" and acc: "Validate y v = None" for x e y
  proof -
    from r res have f: "find (\<lambda>x. Validate x v = None) (visit_order arr) = Some x"
      by (simp split: option.splits)
    then have "Validate x v = None" by (auto simp: find_Some_iff)
    moreover have "y \<in> set (visit_order arr)" using y vo by simp
    from find_sorted_wrt_first [OF sorted f this, simplified] acc
    have "y = x \<or> ver_less (Version y) (Version x)" by simp
    ultimately show ?thesis ..
  qed
  from arr vo sorted res newest show ?thesis by blast
qed


theorem SearchAndValidate_newest_accepting_witness:
  "lineage_chain (MkSchema 0 0 (\<lambda>n :: nat. if n < 3 then None else Some ''e00'')
      (Some (MkSchema 0 1 (\<lambda>n. if n < 2 then None else Some ''e01'')
        (Some (MkSchema 1 0 (\<lambda>n. if n = 1 then None else Some ''e10'') None))))) \<and>
   SearchAndValidate (Some (MkSchema 0 0 (\<lambda>n :: nat. if n < 3 then None else Some ''e00'')
      (Some (MkSchema 0 1 (\<lambda>n. if n < 2 then None else Some ''e01'')
        (Some (MkSchema 1 0 (\<lambda>n. if n = 1 then None else Some ''e10'') None)))))) 1 =
     Inr (Some (MkSchema 1 0 (\<lambda>n. if n = 1 then None else Some ''e10'') None), None)"
  using SearchAndValidate_newest_accepting [of "MkSchema 0 0 (\<lambda>n :: nat. if n < 3 then None else Some ''e00'')
      (Some (MkSchema 0 1 (\<lambda>n. if n < 2 then None else Some ''e01'')
        (Some (MkSchema 1 0 (\<lambda>n. if n = 1 then None else Some ''e10'') None))))" 1]
  by (auto simp add: lineage_chain_def visit_order_def AsArray_def place_def)


text \<open>
  Claim C4, as stated: on total failure the error returned lists the diagnostic of
  each schema. With two schemas that reject with different diagnostics, the error
  returned is the one of the schema at (0, 0) alone.
\<close>

theorem SearchAndValidate_error_not_aggregated:
  "\<not> (case SearchAndValidate
        (Some (MkSchema 0 0 (\<lambda>u :: unit. Some ''e00'') (Some (MkSchema 0 1 (\<lambda>u. Some ''e01'') None)))) () of
        Inl p \<Rightarrow> False
      | Inr (sch, err) \<Rightarrow>
          sch = None \<and>
          lists_each_diagnostic err
            (flatten (Some (MkSchema 0 0 (\<lambda>u :: unit. Some ''e00'')
               (Some (MkSchema 0 1 (\<lambda>u. Some ''e01'') None))))) ())"
  by (simp add: SearchAndValidate_def AsArray_def place_def lists_each_diagnostic_def sublist_code)


text \<open>
  Claim C4, amended. When \<open>AsArray\<close> returns and every schema of the chain rejects
  the value, \<open>SearchAndValidate\<close> returns a nil schema and the error of the last
  validation only, which is the one of the starting schema.
\<close>

theorem SearchAndValidate_total_failure:
  assumes "AsArray (Some s) = Inr arr"
    and "\<forall>x \<in> set (flatten (Some s)). Validate x v \<noteq> None"
  shows "SearchAndValidate (Some s) v = Inr (None, Validate s v)"
proof -
  have "collate [] (flatten (Some s)) = Inr arr" using assms(1) by (simp only: AsArray_def)
  from collate_props [OF this]
  have cp: "set (concat arr) = set (flatten (Some s))" "hd (concat arr) = s"
    by (simp_all add: flatten_Some del: set_concat)
  have "s \<in> set (flatten (Some s))" by (subst flatten_Some) simp
  then have "s \<in> set (concat arr)" using cp(1) by blast
  then have ne: "concat arr \<noteq> []" by (rule in_set_nonempty)
  define visited where "visited = rev (concat arr)"
  have vne: "visited \<noteq> []" and vlast: "last visited = s"
    and vset: "set visited = set (flatten (Some s))"
    unfolding visited_def using ne cp by (simp_all add: last_rev del: set_concat)
  have "find (\<lambda>x. Validate x v = None) visited = None"
    using assms(2) vset by (simp add: find_None_iff)
  then have "first_valid visited v None = (None, Validate s v)"
    using vne vlast by (simp add: first_valid_find)
  then show ?thesis
    using SearchAndValidate_first_valid [OF assms(1), of v] by (simp add: visited_def)
qed


theorem SearchAndValidate_total_failure_witness:
  "AsArray (Some (MkSchema 0 0 (\<lambda>u :: unit. Some ''e00'') (Some (MkSchema 0 1 (\<lambda>u. Some ''e01'') None)))) =
     Inr [[MkSchema 0 0 (\<lambda>u :: unit. Some ''e00'') (Some (MkSchema 0 1 (\<lambda>u. Some ''e01'') None)),
           MkSchema 0 1 (\<lambda>u. Some ''e01'') None]] \<and>
   SearchAndValidate (Some (MkSchema 0 0 (\<lambda>u :: unit. Some ''e00'') (Some (MkSchema 0 1 (\<lambda>u. Some ''e01'') None)))) () =
     Inr (None, Some ''e00'')"
  using SearchAndValidate_total_failure [of "MkSchema 0 0 (\<lambda>u :: unit. Some ''e00'') (Some (MkSchema 0 1 (\<lambda>u. Some ''e01'') None))"
       "[[MkSchema 0 0 (\<lambda>u :: unit. Some ''e00'') (Some (MkSchema 0 1 (\<lambda>u. Some ''e01'') None)),
           MkSchema 0 1 (\<lambda>u. Some ''e01'') None]]" "()"]
  by (simp add: AsArray_def place_def)


subsection \<open>When AsArray returns\<close>

lemma collate_contiguous:
  "collate ret xs = Inr arr \<Longrightarrow> {0..<int (length ret)} \<subseteq> set seen \<Longrightarrow>
     contiguous_after seen (map major xs)"
proof (induction xs arbitrary: ret seen)
  case Nil
  then show ?case by simp
next
  case (Cons x xs)
  then obtain ret1 where p: "place ret x = Inr ret1" and c: "collate ret1 xs = Inr arr"
    by (auto split: sum.splits)
  from place_cases [OF p]
  have rng: "0 \<le> major x" "major x \<le> int (length ret)"
    and len: "length ret1 = (if major x = int (length ret) then Suc (length ret) else length ret)"
    by auto
  have "{0..<int (length ret1)} \<subseteq> set (major x # seen)"
  proof
    fix i assume i: "i \<in> {0..<int (length ret1)}"
    show "i \<in> set (major x # seen)"
    proof (cases "i < int (length ret)")
      case True
      with i Cons.prems(2) show ?thesis by auto
    next
      case False
      with i len have "i = major x" by (auto split: if_splits)
      then show ?thesis by simp
    qed
  qed
  from Cons.IH [OF c this] have "contiguous_after (major x # seen) (map major xs)" .
  moreover have "major x = 0 \<or> major x - 1 \<in> set seen"
    using rng Cons.prems(2) by (cases "major x = 0") auto
  ultimately show ?case using rng by simp
qed

lemma contiguous_collate:
  "contiguous_after seen (map major xs) \<Longrightarrow> set seen \<subseteq> {0..<int (length ret)} \<Longrightarrow>
     \<exists>arr. collate ret xs = Inr arr"
proof (induction xs arbitrary: ret seen)
  case Nil
  then show ?case by simp
next
  case (Cons x xs)
  then have rng: "0 \<le> major x" "major x \<le> int (length ret)"
    and c: "contiguous_after (major x # seen) (map major xs)"
    by auto
  have "\<exists>ret1. place ret x = Inr ret1"
    using rng by (auto simp: place_def Let_def)
  then obtain ret1 where p: "place ret x = Inr ret1" ..
  from place_cases [OF p]
  have len: "length ret1 = (if major x = int (length ret) then Suc (length ret) else length ret)"
    by auto
  have "set (major x # seen) \<subseteq> {0..<int (length ret1)}"
    using Cons.prems(2) rng len by (auto split: if_splits)
  from Cons.IH [OF c this] show ?case using p by auto
qed


text \<open>
  Claim C10. For every starting schema whose major version exceeds 0, the first
  round of the second loop of \<open>AsArray\<close> indexes the empty \<^verbatim>\<open>ret\<close> at \<open>major s\<close>:
  \<open>AsArray\<close> panics, and so does \<open>SearchAndValidate\<close>, which calls it first.
  \<open>AsArray\<close> returns exactly when the chain starts in major version 0 and its major
  versions are contiguous.
\<close>

theorem AsArray_only_safe_from_major_zero:
  "(0 < major s \<longrightarrow>
      AsArray (Some s) = Inl (IndexOutOfRange (major s) 0) \<and>
      SearchAndValidate (Some s) v = Inl (IndexOutOfRange (major s) 0)) \<and>
   ((\<exists>arr. AsArray (Some s) = Inr arr) \<longleftrightarrow>
      major s = 0 \<and> contiguous_after [] (map major (flatten (Some s))))"
proof -
  have a: "0 < major s \<longrightarrow>
      AsArray (Some s) = Inl (IndexOutOfRange (major s) 0) \<and>
      SearchAndValidate (Some s) v = Inl (IndexOutOfRange (major s) 0)"
    by (cases s) (simp add: AsArray_def SearchAndValidate_def place_def)
  have b: "contiguous_after [] (map major (flatten (Some s)))" if "AsArray (Some s) = Inr arr" for arr
    using collate_contiguous [of "[]" "flatten (Some s)" arr "[]"] that by (simp add: AsArray_def)
  have c: "\<exists>arr. AsArray (Some s) = Inr arr" if "contiguous_after [] (map major (flatten (Some s)))"
    using contiguous_collate [of "[]" "flatten (Some s)" "[]"] that by (simp add: AsArray_def)
  have d: "major s = 0" if "contiguous_after [] (map major (flatten (Some s)))"
    using that by (simp add: flatten_Some)
  from a b c d show ?thesis by blast
qed

theorem AsArray_only_safe_from_major_zero_witness:
  "0 < major (MkSchema 1 0 (\<lambda>u :: unit. None) None) \<and>
   AsArray (Some (MkSchema 1 0 (\<lambda>u :: unit. None) None)) = Inl (IndexOutOfRange 1 0) \<and>
   SearchAndValidate (Some (MkSchema 1 0 (\<lambda>u :: unit. None) None)) () =
     Inl (IndexOutOfRange 1 0) \<and>
   \<not> contiguous_after [] (map major (flatten (Some (MkSchema 1 0 (\<lambda>u :: unit. None) None))))"
  using AsArray_only_safe_from_major_zero [of "MkSchema 1 0 (\<lambda>u :: unit. None) None" "()"]
  by simp

section \<open>Defaults\<close>

lemma Kind_ListKind_iff: "Kind d = ListKind \<longleftrightarrow> (\<exists>es. d = Lst es None)"
  by (induction d rule: Kind.induct) auto

lemma has_empty_list_iff: "has_empty_list vals \<longleftrightarrow> Lst [] None \<in> set vals"
proof (induction vals)
  case Nil
  then show ?case by simp
next
  case (Cons val vals)
  have "Kind val = ListKind \<and> fst (Len_Int64 val) \<le> 0 \<longleftrightarrow> val = Lst [] None"
    by (induction val rule: Kind.induct) auto
  with Cons show ?case by auto
qed

lemma Expr_OrOp_iff: "Expr icue = (OrOp, vals) \<longleftrightarrow> icue = Disj vals"
  by (cases icue) auto

text \<open>
  Claim C8. For a default \<open>d\<close> that is a list, \<open>getDefault\<close> reports \<open>d\<close> exactly
  when \<^verbatim>\<open>Default\<close> reports it and either \<open>d\<close> is not empty, or the value is a
  disjunction that has the empty list among its operands. For an open list type,
  which is not a disjunction, the empty list is never reported as a default.
\<close>

theorem getDefault_list_default:
  "(Kind d = ListKind \<longrightarrow>
      (getDefault api icue = (d, True) \<longleftrightarrow>
         Default api icue = (d, True) \<and>
         (d \<noteq> Lst [] None \<or> (\<exists>vals. Expr icue = (OrOp, vals) \<and> Lst [] None \<in> set vals)))) \<and>
   getDefault api (Lst es (Some t)) \<noteq> (Lst [] None, True)"
proof -
  have a: "getDefault api icue = (d, True) \<longleftrightarrow>
         Default api icue = (d, True) \<and>
         (d \<noteq> Lst [] None \<or> (\<exists>vals. Expr icue = (OrOp, vals) \<and> Lst [] None \<in> set vals))"
    if "Kind d = ListKind"
  proof -
    from that obtain ds where d: "d = Lst ds None" by (auto simp: Kind_ListKind_iff)
    obtain d' exist where dflt: "Default api icue = (d', exist)" by (cases "Default api icue")
    obtain op vals where expr: "Expr icue = (op, vals)" by (cases "Expr icue")
    show ?thesis
      by (cases op; cases exist; cases "ds = []")
         (auto simp: getDefault_def dflt expr d has_empty_list_iff Kind_ListKind_iff
            split: option.splits if_splits)
  qed
  have b: "getDefault api (Lst es (Some t)) \<noteq> (Lst [] None, True)"
    by (auto simp: getDefault_def split: prod.splits option.splits if_splits)
  from a b show ?thesis by blast
qed

theorem getDefault_list_default_witness:
  "Kind (Lst [] None) = ListKind \<and>
   getDefault sample_api (Disj [Lst [] None, Lst [] (Some (Scalar ''string''))]) = (Lst [] None, True) \<and>
   getDefault sample_api (Lst [] (Some (Scalar ''string''))) = (Lst [] None, False) \<and>
   getDefault sample_api (Disj [Lst [Scalar ''1''] None, Lst [] (Some (Scalar ''int''))]) =
     (Lst [Scalar ''1''] None, True)"
  using getDefault_list_default [of "Lst [] None" sample_api
      "Disj [Lst [] None, Lst [] (Some (Scalar ''string''))]" "[]" "Scalar ''string''"]
  by (simp add: getDefault_def sample_api_def)

text \<open>
  Claim C9. For every resource whose payload is not a Go string, \<open>ApplyDefaults\<close>
  and \<open>TrimDefaults\<close> panic on the type assertion; no error is returned.
\<close>

theorem Defaults_panic_on_non_string:
  "(\<forall>src. Value r \<noteq> GoString src) \<Longrightarrow>
     ApplyDefaults api r scue = Inl InterfaceConversion \<and>
     TrimDefaults api r scue = Inl InterfaceConversion"
  by (cases "Value r") (simp_all add: ApplyDefaults_def TrimDefaults_def)

theorem Defaults_panic_on_non_string_witness:
  "(\<forall>src. GoNil \<noteq> GoString src) \<and>
   (\<forall>api scue. ApplyDefaults api \<lparr>Value = GoNil, Name = []\<rparr> scue = Inl InterfaceConversion \<and>
      TrimDefaults api \<lparr>Value = GoNil, Name = []\<rparr> scue = Inl InterfaceConversion)"
  using Defaults_panic_on_non_string [of "\<lparr>Value = GoNil, Name = []\<rparr>"]
  by simp

section \<open>ApplyDefaults on a struct\<close>

lemma lookup_Nil: "LookupPath_Str (Struct []) l = None"
  by simp

lemma lookup_Cons:
  "LookupPath_Str (Struct ((l', optional, v) # fs)) l =
     (if l' = l \<and> \<not> optional then Some v else LookupPath_Str (Struct fs) l)"
  by simp

lemma lookup_fill_same:
  "regular_fields fs \<Longrightarrow>
     LookupPath_Str (Struct (fill_field u fs l x)) l =
       Some (case LookupPath_Str (Struct fs) l of Some v \<Rightarrow> u v x | None \<Rightarrow> x)"
  by (induction fs)
     (auto simp: regular_fields_def lookup_Nil lookup_Cons simp del: LookupPath_Str.simps)

lemma lookup_fill_other:
  "l' \<noteq> l \<Longrightarrow>
     LookupPath_Str (Struct (fill_field u fs l x)) l' = LookupPath_Str (Struct fs) l'"
  by (induction fs) (auto simp: lookup_Nil lookup_Cons simp del: LookupPath_Str.simps)

lemma fill_regular: "regular_fields fs \<Longrightarrow> regular_fields (fill_field u fs l x)"
  by (induction fs) (auto simp: regular_fields_def)

lemma apply_fields_step:
  assumes "regular_fields cur"
  shows "\<exists>cur'. apply_fields api (Struct cur) ((l0, opt0, fv0) # rest) =
                 apply_fields api (Struct cur') rest \<and>
           regular_fields cur' \<and>
           LookupPath_Str (Struct cur') l0 =
             applied_field api (LookupPath_Str (Struct cur) l0) opt0 fv0 \<and>
           (\<forall>l. l \<noteq> l0 \<longrightarrow> LookupPath_Str (Struct cur') l = LookupPath_Str (Struct cur) l)"
proof (cases "LookupPath_Str (Struct cur) l0")
  case None
  show ?thesis
  proof (cases opt0)
    case True
    with None assms show ?thesis
      by (intro exI [of _ cur]) (simp add: applied_field_def del: LookupPath_Str.simps)
  next
    case False
    with None assms show ?thesis
      by (intro exI [of _ "fill_field (Unify api) cur l0 (Eval api fv0)"])
         (simp add: applied_field_def lookup_fill_same lookup_fill_other fill_regular
            del: LookupPath_Str.simps)
  qed
next
  case (Some lv)
  obtain res err where h: "applyDefaultHelper api lv fv0 = (res, err)"
    by (cases "applyDefaultHelper api lv fv0")
  show ?thesis
  proof (cases err)
    case None
    with Some h assms show ?thesis
      by (intro exI [of _ "fill_field (Unify api) cur l0 res"])
         (simp add: applied_field_def lookup_fill_same lookup_fill_other fill_regular
            del: LookupPath_Str.simps)
  next
    case (Some e)
    with \<open>LookupPath_Str (Struct cur) l0 = Some lv\<close> h assms show ?thesis
      by (intro exI [of _ cur]) (simp add: applied_field_def del: LookupPath_Str.simps)
  qed
qed

lemma apply_fields_lookup:
  "distinct (map fst fs) \<Longrightarrow> regular_fields cur \<Longrightarrow>
     \<exists>out. apply_fields api (Struct cur) fs = Struct out \<and> regular_fields out \<and>
       (\<forall>l. LookupPath_Str (Struct out) l =
          (case find (\<lambda>f. fst f = l) fs of
             None \<Rightarrow> LookupPath_Str (Struct cur) l
           | Some (l', optional, fv) \<Rightarrow>
               applied_field api (LookupPath_Str (Struct cur) l) optional fv))"
proof (induction fs arbitrary: cur)
  case Nil
  then show ?case by simp
next
  case (Cons f rest)
  obtain l0 opt0 fv0 where f: "f = (l0, opt0, fv0)" by (cases f)
  from apply_fields_step [OF Cons.prems(2), where api = api and ?l0.0 = l0 and ?opt0.0 = opt0
      and ?fv0.0 = fv0 and rest = rest]
  obtain cur' where step: "apply_fields api (Struct cur) ((l0, opt0, fv0) # rest) =
                 apply_fields api (Struct cur') rest"
    and reg: "regular_fields cur'"
    and same: "LookupPath_Str (Struct cur') l0 =
             applied_field api (LookupPath_Str (Struct cur) l0) opt0 fv0"
    and other: "\<And>l. l \<noteq> l0 \<Longrightarrow> LookupPath_Str (Struct cur') l = LookupPath_Str (Struct cur) l"
    by blast
  have d: "distinct (map fst rest)" and fresh: "l0 \<notin> fst ` set rest"
    using Cons.prems(1) by (simp_all add: f)
  from Cons.IH [OF d reg]
  obtain out where out: "apply_fields api (Struct cur') rest = Struct out"
    and oreg: "regular_fields out"
    and olook: "\<And>l. LookupPath_Str (Struct out) l =
          (case find (\<lambda>f. fst f = l) rest of
             None \<Rightarrow> LookupPath_Str (Struct cur') l
           | Some (l', optional, fv) \<Rightarrow>
               applied_field api (LookupPath_Str (Struct cur') l) optional fv)"
    by blast
  have nf: "find (\<lambda>f. fst f = l0) rest = None"
    using fresh by (force simp: find_None_iff)
  have "LookupPath_Str (Struct out) l =
          (case find (\<lambda>f. fst f = l) (f # rest) of
             None \<Rightarrow> LookupPath_Str (Struct cur) l
           | Some (l', optional, fv) \<Rightarrow>
               applied_field api (LookupPath_Str (Struct cur) l) optional fv)" for l
  proof (cases "l = l0")
    case True
    then show ?thesis using olook [of l0] nf same by (simp add: f del: LookupPath_Str.simps)
  next
    case False
    then show ?thesis
      using olook [of l] other [of l]
      by (simp add: f del: LookupPath_Str.simps split: option.splits)
  qed
  with out oreg step show ?case by (auto simp: f simp del: LookupPath_Str.simps)
qed

lemma find_label:
  "distinct (map fst fs) \<Longrightarrow> (l, optional, fv) \<in> set fs \<Longrightarrow>
     find (\<lambda>f. fst f = l) fs = Some (l, optional, fv)"
  by (induction fs) (auto simp: rev_image_eqI)

lemma find_no_label: "l \<notin> fst ` set fs \<Longrightarrow> find (\<lambda>f. fst f = l) fs = None"
  by (force simp: find_None_iff)

text \<open>
  Claim C6. For a struct schema with fields \<open>fs\<close> (optional ones included) and an
  input that compiles to a struct of data, the helper returns a struct and no
  error, and for every field of the schema: when the input has the label, the
  field is filled with the result of the recursion on the input field and the
  schema field (it stays as it was when the recursion returns an error); when the
  label is absent and the field is not optional, the field is the evaluated value
  of the schema field; when the label is absent and the field is optional, the
  field is absent from the output. Labels that the schema does not have are kept.
\<close>

theorem ApplyDefaults_struct_fields:
  assumes "distinct (map fst fs)"
    and "regular_fields ifs"
    and "CompileString api src (if n = [] then ''resource'' else n) = Struct ifs"
  shows "\<exists>out.
     applyDefaultHelper api (Struct ifs) (Struct fs) = (Struct out, None) \<and>
     ApplyDefaults api \<lparr>Value = GoString src, Name = n\<rparr> (Struct fs) =
       Inr (case convertCUEValueToString api (Struct out) of
              (re, Some e) \<Rightarrow> (\<lparr>Value = GoString src, Name = n\<rparr>, Some e)
            | (re, None) \<Rightarrow> (\<lparr>Value = GoString re, Name = []\<rparr>, None)) \<and>
     (\<forall>l optional fv. (l, optional, fv) \<in> set fs \<longrightarrow>
        LookupPath_Str (Struct out) l =
          (case LookupPath_Str (Struct ifs) l of
             Some lv \<Rightarrow>
               (case applyDefaultHelper api lv fv of
                  (res, None) \<Rightarrow> Some (Unify api lv res)
                | (res, Some e) \<Rightarrow> Some lv)
           | None \<Rightarrow> if optional then None else Some (Eval api fv))) \<and>
     (\<forall>l. l \<notin> fst ` set fs \<longrightarrow>
        LookupPath_Str (Struct out) l = LookupPath_Str (Struct ifs) l)"
proof -
  from apply_fields_lookup [OF assms(1) assms(2), of api]
  obtain out where out: "apply_fields api (Struct ifs) fs = Struct out"
    and look: "\<And>l. LookupPath_Str (Struct out) l =
          (case find (\<lambda>f. fst f = l) fs of
             None \<Rightarrow> LookupPath_Str (Struct ifs) l
           | Some (l', optional, fv) \<Rightarrow>
               applied_field api (LookupPath_Str (Struct ifs) l) optional fv)"
    by blast
  have h: "applyDefaultHelper api (Struct ifs) (Struct fs) = (Struct out, None)"
    using out by simp
  have a: "ApplyDefaults api \<lparr>Value = GoString src, Name = n\<rparr> (Struct fs) =
       Inr (case convertCUEValueToString api (Struct out) of
              (re, Some e) \<Rightarrow> (\<lparr>Value = GoString src, Name = n\<rparr>, Some e)
            | (re, None) \<Rightarrow> (\<lparr>Value = GoString re, Name = []\<rparr>, None))"
  proof (cases "n = []")
    case True
    with assms(3) have "CompileString api src ''resource'' = Struct ifs" by simp
    with True h show ?thesis
      by (simp add: ApplyDefaults_def del: applyDefaultHelper.simps
          split: prod.splits option.splits)
  next
    case False
    with assms(3) have "CompileString api src n = Struct ifs" by simp
    with False h show ?thesis
      by (simp add: ApplyDefaults_def del: applyDefaultHelper.simps
          split: prod.splits option.splits)
  qed
  have f: "LookupPath_Str (Struct out) l =
          (case LookupPath_Str (Struct ifs) l of
             Some lv \<Rightarrow>
               (case applyDefaultHelper api lv fv of
                  (res, None) \<Rightarrow> Some (Unify api lv res)
                | (res, Some e) \<Rightarrow> Some lv)
           | None \<Rightarrow> if optional then None else Some (Eval api fv))"
    if "(l, optional, fv) \<in> set fs" for l optional fv
    using look [of l] find_label [OF assms(1) that]
    by (simp add: applied_field_def del: LookupPath_Str.simps applyDefaultHelper.simps)
  have u: "LookupPath_Str (Struct out) l = LookupPath_Str (Struct ifs) l"
    if "l \<notin> fst ` set fs" for l
    using look [of l] find_no_label [OF that] by (simp del: LookupPath_Str.simps)
  from h a f u show ?thesis by blast
qed

theorem ApplyDefaults_struct_fields_witness:
  "distinct (map fst [(''a'', False, Scalar ''string''),
      (''b'', False, Disj [Scalar ''42'', Scalar ''int'']), (''c'', True, Scalar ''int'')]) \<and>
   regular_fields [(''a'', False, Scalar ''hi'')] \<and>
   CompileString sample_api ''a: hi'' ''resource'' = Struct [(''a'', False, Scalar ''hi'')] \<and>
   applyDefaultHelper sample_api (Struct [(''a'', False, Scalar ''hi'')])
     (Struct [(''a'', False, Scalar ''string''),
        (''b'', False, Disj [Scalar ''42'', Scalar ''int'']), (''c'', True, Scalar ''int'')]) =
     (Struct [(''a'', False, Scalar ''hi''), (''b'', False, Scalar ''42'')], None) \<and>
   ApplyDefaults sample_api \<lparr>Value = GoString ''a: hi'', Name = []\<rparr>
     (Struct [(''a'', False, Scalar ''string''),
        (''b'', False, Disj [Scalar ''42'', Scalar ''int'']), (''c'', True, Scalar ''int'')]) =
     Inr (\<lparr>Value = GoString ''{a: hi;b: 42;}'', Name = []\<rparr>, None)"
proof -
  let ?fs = "[(''a'', False, Scalar ''string''),
      (''b'', False, Disj [Scalar ''42'', Scalar ''int'']), (''c'', True, Scalar ''int'')]"
  let ?ifs = "[(''a'', False, Scalar ''hi'')]"
  have d: "distinct (map fst ?fs)" by simp
  have r: "regular_fields ?ifs" by (simp add: regular_fields_def)
  have c: "CompileString sample_api ''a: hi'' (if [] = [] then ''resource'' else []) = Struct ?ifs"
    by (simp add: sample_api_def sample_CompileString_def)
  have h: "applyDefaultHelper sample_api (Struct ?ifs) (Struct ?fs) =
      (Struct [(''a'', False, Scalar ''hi''), (''b'', False, Scalar ''42'')], None)"
    by (simp add: sample_api_def)
  from ApplyDefaults_struct_fields [OF d r c]
  obtain out where o: "applyDefaultHelper sample_api (Struct ?ifs) (Struct ?fs) = (Struct out, None)"
    and a: "ApplyDefaults sample_api \<lparr>Value = GoString ''a: hi'', Name = []\<rparr> (Struct ?fs) =
       Inr (case convertCUEValueToString sample_api (Struct out) of
              (re, Some e) \<Rightarrow> (\<lparr>Value = GoString ''a: hi'', Name = []\<rparr>, Some e)
            | (re, None) \<Rightarrow> (\<lparr>Value = GoString re, Name = []\<rparr>, None))"
    by blast
  from o h have out: "out = [(''a'', False, Scalar ''hi''), (''b'', False, Scalar ''42'')]"
    by (simp del: applyDefaultHelper.simps)
  have m: "convertCUEValueToString sample_api
      (Struct [(''a'', False, Scalar ''hi''), (''b'', False, Scalar ''42'')]) =
      (''{a: hi;b: 42;}'', None)"
    by (simp add: convertCUEValueToString_def sample_api_def)
  from a have "ApplyDefaults sample_api \<lparr>Value = GoString ''a: hi'', Name = []\<rparr> (Struct ?fs) =
     Inr (\<lparr>Value = GoString ''{a: hi;b: 42;}'', Name = []\<rparr>, None)"
    unfolding out m by simp
  with d r c h show ?thesis by (simp del: applyDefaultHelper.simps)
qed

section \<open>TrimDefaults on a struct\<close>



lemma lookup_regular_mem:
  "distinct (map fst fs) \<Longrightarrow> regular_fields fs \<Longrightarrow> (l, optional, v) \<in> set fs \<Longrightarrow>
     LookupPath_Str (Struct fs) l = Some v"
  by (induction fs)
     (auto simp: regular_fields_def lookup_Cons rev_image_eqI simp del: LookupPath_Str.simps)









end
